theory Spec2Isabelle
  imports Main "HOL-Library.Word"
begin

section \<open>Pixel buffers\<close>

text \<open>
  The program works on numpy arrays of bytes as OpenCV produces them: a grayscale image
  is a two-dimensional array (rows of bytes), a colour image a three-dimensional one
  (rows of pixels, a pixel being its channel bytes in the order blue, green, red).
  An array is modelled by its rows. numpy arrays are rectangular, which the list
  model does not enforce: the predicates \<open>has_shape\<close>, \<open>has_channels\<close> and \<open>canonical\<close>
  below say it where a statement needs it. An array with no rows or no columns keeps
  its width and channel count in numpy and loses them in the list model; the decoder
  and the camera give no such array, and the statements below are about arrays that
  are not empty wherever the difference could show.
\<close>

type_synonym uint8 = "8 word"

type_synonym pixel = "uint8 list"

datatype ndarray = Arr2 "uint8 list list" | Arr3 "pixel list list"

text \<open>
  Failures. The first seven are the failure names of the specification; in the source
  they are the \<open>ValueError\<close> and \<open>Exception\<close> objects raised at the places named
  below. The last three are raised by the libraries: numpy's \<open>IndexError\<close> and
  \<open>OverflowError\<close>, and OpenCV's \<open>cv2.error\<close>.
  \<^item> \<open>DecodeFailure\<close>: \<open>load_image\<close>, when \<open>cv2.imread\<close> returned \<open>None\<close>;
  \<^item> \<open>DeviceUnavailable\<close>, \<open>FrameReadFailure\<close>: \<open>capture_from_camera\<close>;
  \<^item> \<open>InvalidRegion\<close>: the two \<open>ValueError\<close>s of the crop dialog's \<open>accept\<close>;
  \<^item> \<open>CircleOutOfBounds\<close>: the two \<open>ValueError\<close>s of the circle dialog's \<open>accept\<close>;
  \<^item> \<open>UnsupportedChannelLayout\<close>: the \<open>ValueError\<close> of \<open>display_image\<close> for a
    channel count other than 3 or 4;
  \<^item> \<open>InvalidBuffer\<close>: the \<open>ValueError\<close> of \<open>display_image\<close> for \<open>None\<close>.
\<close>

datatype error =
    DecodeFailure
  | DeviceUnavailable
  | FrameReadFailure
  | UnsupportedChannelLayout
  | InvalidRegion
  | CircleOutOfBounds
  | InvalidBuffer
  | IndexError
  | OverflowError
  | CvError

fun height :: "ndarray \<Rightarrow> nat" where
  "height (Arr2 rows) = length rows"
| "height (Arr3 rows) = length rows"

definition row_width :: "'a list list \<Rightarrow> nat" where
  "row_width rows = (case rows of [] \<Rightarrow> 0 | r # _ \<Rightarrow> length r)"

fun width :: "ndarray \<Rightarrow> nat" where
  "width (Arr2 rows) = row_width rows"
| "width (Arr3 rows) = row_width rows"

text \<open>\<open>image.shape[2]\<close> of a three-dimensional array, read off its first pixel.\<close>

definition channels :: "pixel list list \<Rightarrow> nat" where
  "channels rows = (case rows of (p # _) # _ \<Rightarrow> length p | _ \<Rightarrow> 0)"

text \<open>The pixel in row \<open>r\<close>, column \<open>c\<close>; a grayscale pixel is its one byte.\<close>

fun pixel_at :: "ndarray \<Rightarrow> nat \<Rightarrow> nat \<Rightarrow> pixel" where
  "pixel_at (Arr2 rows) r c = [rows ! r ! c]"
| "pixel_at (Arr3 rows) r c = rows ! r ! c"

definition rect :: "nat \<Rightarrow> nat \<Rightarrow> 'a list list \<Rightarrow> bool" where
  "rect h w rows \<longleftrightarrow> length rows = h \<and> list_all (\<lambda>r. length r = w) rows"

text \<open>An array of \<open>h\<close> rows and \<open>w\<close> columns, of either kind.\<close>

fun has_shape :: "ndarray \<Rightarrow> nat \<Rightarrow> nat \<Rightarrow> bool" where
  "has_shape (Arr2 rows) h w = rect h w rows"
| "has_shape (Arr3 rows) h w = rect h w rows"

text \<open>
  A three-dimensional array with exactly \<open>n\<close> channels at every pixel, and the
  canonical buffers of the specification: rectangular, not empty, three channels.
\<close>

definition has_channels :: "nat \<Rightarrow> ndarray \<Rightarrow> bool" where
  "has_channels n img =
     (case img of
        Arr2 rows \<Rightarrow> False
      | Arr3 rows \<Rightarrow> list_all (list_all (\<lambda>p. length p = n)) rows)"

definition canonical :: "ndarray \<Rightarrow> bool" where
  "canonical img \<longleftrightarrow>
     0 < height img \<and> 0 < width img \<and> has_shape img (height img) (width img)
     \<and> has_channels 3 img"

section \<open>Slicing\<close>

text \<open>
  Python's \<open>xs[lo:hi]\<close> for integers: a negative bound counts from the end, and every
  bound is clamped to \<open>0 .. len(xs)\<close>; an empty range gives the empty list. Slicing
  never raises.
\<close>

definition slice_bound :: "nat \<Rightarrow> int \<Rightarrow> nat" where
  "slice_bound n i = (if i < 0 then nat (int n + i) else min n (nat i))"

definition py_slice :: "int \<Rightarrow> int \<Rightarrow> 'a list \<Rightarrow> 'a list" where
  "py_slice lo hi xs =
     take (slice_bound (length xs) hi - slice_bound (length xs) lo)
       (drop (slice_bound (length xs) lo) xs)"

section \<open>The transform engine (\<open>src/core/image_processor.py\<close>)\<close>

text \<open>
  The four static methods of \<open>ImageProcessor\<close>. \<open>src/ui/main_window.py\<close> declares a
  class of the same name with the same four bodies (its \<open>extract_channel\<close> first
  raises when the image is \<open>None\<close>); that copy is the one the dialogs call. An array
  is never \<open>None\<close> here, so one model serves both.
\<close>

subsection \<open>\<open>crop_image\<close>\<close>

text \<open>
  \<open>return image[y1:y2, x1:x2]\<close>: rows \<open>y1 .. y2\<close>, and of each of them columns
  \<open>x1 .. x2\<close>. The function has no check and no \<open>raise\<close>.
\<close>

fun crop_image :: "ndarray \<Rightarrow> int \<Rightarrow> int \<Rightarrow> int \<Rightarrow> int \<Rightarrow> error + ndarray" where
  "crop_image (Arr2 rows) x1 y1 x2 y2 = Inr (Arr2 (map (py_slice x1 x2) (py_slice y1 y2 rows)))"
| "crop_image (Arr3 rows) x1 y1 x2 y2 = Inr (Arr3 (map (py_slice x1 x2) (py_slice y1 y2 rows)))"

text \<open>
  The crop dialog's \<open>accept\<close> (\<open>src/ui/main_window.py\<close>), from the parsed integers on:
  the two checks, then the call of \<open>crop_image\<close>. \<open>Inr\<close> is the new processed image;
  on \<open>Inl\<close> the handler shows a message and stores nothing.
\<close>

definition crop_image_dialog_accept ::
  "ndarray \<Rightarrow> int \<Rightarrow> int \<Rightarrow> int \<Rightarrow> int \<Rightarrow> error + ndarray" where
  "crop_image_dialog_accept img x1 y1 x2 y2 =
     (if x1 \<ge> x2 \<or> y1 \<ge> y2 then Inl InvalidRegion
      else if (x2 - x1) < 10 \<or> (y2 - y1) < 10 then Inl InvalidRegion
      else crop_image img x1 y1 x2 y2)"

subsection \<open>\<open>extract_channel\<close>\<close>

text \<open>
  \<open>image[:, :, k]\<close>: the plane of channel \<open>k\<close>. numpy raises \<open>IndexError\<close> when the
  array has no third axis or \<open>k\<close> is not below the channel count.
\<close>

definition plane :: "nat \<Rightarrow> pixel list list \<Rightarrow> error + uint8 list list" where
  "plane k rows =
     (if list_all (list_all (\<lambda>p. k < length p)) rows
      then Inr (map (map (\<lambda>p. p ! k)) rows)
      else Inl IndexError)"

definition zeros_like :: "uint8 list list \<Rightarrow> uint8 list list" where
  "zeros_like pl = map (map (\<lambda>_. 0)) pl"

text \<open>
  \<open>cv2.merge([a, b, c])\<close>: three planes of one size interleaved into pixels. OpenCV
  raises \<open>cv2.error\<close> when the planes are empty (no rows or no columns).
\<close>

definition interleave :: "uint8 list list \<Rightarrow> uint8 list list \<Rightarrow> uint8 list list \<Rightarrow> pixel list list" where
  "interleave a b c =
     map (\<lambda>(ra, rb, rc). map (\<lambda>(x, y, z). [x, y, z]) (zip ra (zip rb rc))) (zip a (zip b c))"

definition cv2_merge :: "uint8 list list \<Rightarrow> uint8 list list \<Rightarrow> uint8 list list \<Rightarrow> error + ndarray" where
  "cv2_merge a b c =
     (if length a = 0 \<or> row_width a = 0 then Inl CvError
      else Inr (Arr3 (interleave a b c)))"

fun extract_channel :: "ndarray \<Rightarrow> int \<Rightarrow> error + ndarray" where
  "extract_channel (Arr2 rows) channel = Inl IndexError"
| "extract_channel (Arr3 rows) channel =
     (case plane 0 rows of
        Inl e \<Rightarrow> Inl e
      | Inr p0 \<Rightarrow>
          if channel = 0 then cv2_merge p0 (zeros_like p0) (zeros_like p0)
          else if channel = 1 then
            (case plane 1 rows of
               Inl e \<Rightarrow> Inl e
             | Inr p1 \<Rightarrow> cv2_merge (zeros_like p0) p1 (zeros_like p0))
          else
            (case plane 2 rows of
               Inl e \<Rightarrow> Inl e
             | Inr p2 \<Rightarrow> cv2_merge (zeros_like p0) (zeros_like p0) p2))"

subsection \<open>\<open>adjust_brightness\<close>\<close>

text \<open>
  \<open>cv2.cvtColor\<close> with \<open>COLOR_BGR2HSV\<close> and \<open>COLOR_HSV2BGR\<close>. What OpenCV computes
  for one pixel is the library's business and a parameter here (\<open>bgr2hsv\<close> and
  \<open>hsv2bgr\<close>, from three bytes to three bytes); the value channel is the third byte of
  the result of \<open>bgr2hsv\<close>. OpenCV raises \<open>cv2.error\<close> for an empty array, for a
  two-dimensional one, and for a channel count that the conversion does not take
  (3 or 4 for \<open>COLOR_BGR2HSV\<close>, which reads the first three; 3 for the way back).
\<close>

type_synonym convert = "uint8 \<Rightarrow> uint8 \<Rightarrow> uint8 \<Rightarrow> uint8 \<times> uint8 \<times> uint8"

definition is_empty :: "ndarray \<Rightarrow> bool" where
  "is_empty img \<longleftrightarrow> height img = 0 \<or> width img = 0"

definition convert_pixel :: "convert \<Rightarrow> pixel \<Rightarrow> pixel" where
  "convert_pixel f p = (case f (p ! 0) (p ! 1) (p ! 2) of (a, b, c) \<Rightarrow> [a, b, c])"

definition cvtColor_BGR2HSV :: "convert \<Rightarrow> ndarray \<Rightarrow> error + ndarray" where
  "cvtColor_BGR2HSV bgr2hsv img =
     (case img of
        Arr2 rows \<Rightarrow> Inl CvError
      | Arr3 rows \<Rightarrow>
          if is_empty img then Inl CvError
          else if list_all (list_all (\<lambda>p. length p = 3)) rows
                  \<or> list_all (list_all (\<lambda>p. length p = 4)) rows
          then Inr (Arr3 (map (map (convert_pixel bgr2hsv)) rows))
          else Inl CvError)"

definition cvtColor_HSV2BGR :: "convert \<Rightarrow> ndarray \<Rightarrow> error + ndarray" where
  "cvtColor_HSV2BGR hsv2bgr img =
     (case img of
        Arr2 rows \<Rightarrow> Inl CvError
      | Arr3 rows \<Rightarrow>
          if is_empty img then Inl CvError
          else if list_all (list_all (\<lambda>p. length p = 3)) rows
          then Inr (Arr3 (map (map (convert_pixel hsv2bgr)) rows))
          else Inl CvError)"

text \<open>
  \<open>hsv[:, :, 2] + value\<close> adds a Python integer to an array of \<open>uint8\<close>: for a value
  that fits \<open>uint8\<close> the sum is again \<open>uint8\<close> and wraps around modulo 256, under
  every version of numpy. For a value outside \<open>0 .. 255\<close> numpy 2 raises
  \<open>OverflowError\<close>, which is what the model does (numpy 1 widens the result type
  instead); the dialog only passes values from 0 to 100.
  \<open>np.clip(a, 0, 255)\<close> is \<open>minimum(maximum(a, 0), 255)\<close>, on \<open>uint8\<close> here.
\<close>

definition np_clip :: "uint8 \<Rightarrow> uint8 \<Rightarrow> uint8 \<Rightarrow> uint8" where
  "np_clip a lo hi = min (max a lo) hi"

definition brighten_pixel :: "int \<Rightarrow> pixel \<Rightarrow> pixel" where
  "brighten_pixel val p = p[2 := np_clip (p ! 2 + word_of_int val) 0 255]"

text \<open>The assignment \<open>hsv[:, :, 2] = np.clip(hsv[:, :, 2] + value, 0, 255)\<close>.\<close>

definition brighten :: "ndarray \<Rightarrow> int \<Rightarrow> error + ndarray" where
  "brighten hsv val =
     (case hsv of
        Arr2 rows \<Rightarrow> Inl IndexError
      | Arr3 rows \<Rightarrow>
          (case plane 2 rows of
             Inl e \<Rightarrow> Inl e
           | Inr v \<Rightarrow>
               if val < 0 \<or> 255 < val then Inl OverflowError
               else Inr (Arr3 (map (map (brighten_pixel val)) rows))))"

definition adjust_brightness :: "convert \<Rightarrow> convert \<Rightarrow> ndarray \<Rightarrow> int \<Rightarrow> error + ndarray" where
  "adjust_brightness bgr2hsv hsv2bgr img val =
     (case cvtColor_BGR2HSV bgr2hsv img of
        Inl e \<Rightarrow> Inl e
      | Inr hsv \<Rightarrow>
          (case brighten hsv val of
             Inl e \<Rightarrow> Inl e
           | Inr hsv' \<Rightarrow> cvtColor_HSV2BGR hsv2bgr hsv'))"

text \<open>
  OpenCV's two conversions on gray pixels (blue, green and red equal): a gray pixel has
  hue 0, saturation 0 and its byte as value, and the way back gives the value three
  times. They serve to run examples, on gray pixels only: for a coloured pixel OpenCV
  computes a hue and a saturation, which these do not. The theorems about
  \<open>adjust_brightness\<close> hold for every pair of conversions; only the examples name
  these two.
\<close>

definition bgr2hsv_gray :: convert where
  "bgr2hsv_gray b g r = (0, 0, max b (max g r))"

definition hsv2bgr_gray :: convert where
  "hsv2bgr_gray h s v = (v, v, v)"

subsection \<open>\<open>draw_circle\<close>\<close>

text \<open>
  \<open>cv2.circle(result, (x, y), radius, (0, 0, 255), 2)\<close> draws into \<open>result\<close>. Which
  pixels OpenCV's rasteriser paints is the library's business: the drawing routine is a
  parameter, from the buffer's contents, the centre, the radius, the colour and the
  thickness to the contents after the call, or \<open>None\<close> when OpenCV raises \<open>cv2.error\<close>.
  \<open>result = image.copy()\<close> is the identity on contents; the store model below makes the
  copy a new buffer.
\<close>

type_synonym circle_routine = "ndarray \<Rightarrow> int \<times> int \<Rightarrow> int \<Rightarrow> pixel \<Rightarrow> int \<Rightarrow> ndarray option"

definition draw_circle :: "circle_routine \<Rightarrow> ndarray \<Rightarrow> int \<Rightarrow> int \<Rightarrow> int \<Rightarrow> error + ndarray" where
  "draw_circle cv2_circle img x y radius =
     (case cv2_circle img (x, y) radius [0, 0, 255] 2 of
        None \<Rightarrow> Inl CvError
      | Some result \<Rightarrow> Inr result)"

text \<open>
  The circle dialog's \<open>accept\<close> (\<open>src/ui/main_window.py\<close>), from the parsed integers on,
  with \<open>height, width = self.image.shape[:2]\<close>.
\<close>

definition draw_circle_dialog_accept ::
  "circle_routine \<Rightarrow> ndarray \<Rightarrow> int \<Rightarrow> int \<Rightarrow> int \<Rightarrow> error + ndarray" where
  "draw_circle_dialog_accept cv2_circle img x y radius =
     (if radius \<le> 0 then Inl CircleOutOfBounds
      else if x - radius < 0 \<or> x + radius \<ge> int (width img)
              \<or> y - radius < 0 \<or> y + radius \<ge> int (height img)
      then Inl CircleOutOfBounds
      else draw_circle cv2_circle img x y radius)"

text \<open>
  A drawing routine to run examples with: it paints the pixels whose distance from the
  centre is within half the thickness of the radius, clipped to the buffer, and fails on
  a negative radius as OpenCV's assertion does. It stands in for OpenCV's rasteriser,
  whose exact pixel set differs. The theorems about \<open>draw_circle\<close> hold for every
  routine; only the examples name this one.
\<close>

definition on_ring :: "int \<times> int \<Rightarrow> int \<Rightarrow> int \<Rightarrow> nat \<Rightarrow> nat \<Rightarrow> bool" where
  "on_ring centre radius thickness r c =
     (let d = 4 * ((int c - fst centre)\<^sup>2 + (int r - snd centre)\<^sup>2)
      in (2 * radius \<le> thickness \<or> (2 * radius - thickness)\<^sup>2 \<le> d)
         \<and> d \<le> (2 * radius + thickness)\<^sup>2)"

definition paint :: "(nat \<Rightarrow> nat \<Rightarrow> bool) \<Rightarrow> ('a \<Rightarrow> 'a) \<Rightarrow> 'a list list \<Rightarrow> 'a list list" where
  "paint on f rows =
     map (\<lambda>(r, row). map (\<lambda>(c, p). if on r c then f p else p) (enumerate 0 row))
       (enumerate 0 rows)"

definition sketch_circle :: circle_routine where
  "sketch_circle img centre radius color thickness =
     (if radius < 0 then None
      else Some (case img of
        Arr2 rows \<Rightarrow> Arr2 (paint (on_ring centre radius thickness) (\<lambda>v. case color of [] \<Rightarrow> v | k # _ \<Rightarrow> k) rows)
      | Arr3 rows \<Rightarrow> Arr3 (paint (on_ring centre radius thickness) (\<lambda>p. take (length p) color) rows)))"

section \<open>Loading (\<open>src/core/image_loader.py\<close>)\<close>

subsection \<open>\<open>load_image\<close>\<close>

text \<open>
  The conversion of \<open>load_image\<close> after a successful decode: a two-dimensional array
  goes through \<open>COLOR_GRAY2BGR\<close> (the byte three times), an array whose channel count
  is 4 through \<open>COLOR_BGRA2BGR\<close> (the fourth byte dropped), and every other array is
  returned as it is. There is no \<open>raise\<close> in it.
\<close>

definition normalize :: "ndarray \<Rightarrow> error + ndarray" where
  "normalize img =
     (case img of
        Arr2 rows \<Rightarrow> Inr (Arr3 (map (map (\<lambda>v. [v, v, v])) rows))
      | Arr3 rows \<Rightarrow>
          if channels rows = 4 then Inr (Arr3 (map (map (take 3)) rows))
          else Inr img)"

text \<open>
  \<open>load_image\<close>, given what \<open>cv2.imread(path, cv2.IMREAD_UNCHANGED)\<close> returned (\<open>None\<close>
  when the file could not be decoded). \<open>Inl\<close> stands for the \<open>except\<close> branch: the
  error is reported and \<open>None\<close> returned.
\<close>

definition load_image :: "ndarray option \<Rightarrow> error + ndarray" where
  "load_image decoded =
     (case decoded of
        None \<Rightarrow> Inl DecodeFailure
      | Some img \<Rightarrow> normalize img)"

subsection \<open>\<open>capture_from_camera\<close>\<close>

text \<open>
  The camera is the collaborator behind \<open>cv2.VideoCapture\<close>: whether device 0 can be
  opened, what its next read does, whether the program holds it (it was opened and
  \<open>release\<close> was not called since), and the calls the program made on it so far.
  \<open>cap.read()\<close> gives a frame, or reports by its flag \<open>ret\<close> that it has none, or
  raises (\<open>cv2.error\<close>).
\<close>

datatype call = Open | Read | Release

datatype reading = Frame ndarray | NoFrame | ReadError

record camera =
  available :: bool
  next_read :: reading
  held :: bool
  calls :: "call list"

definition VideoCapture :: "camera \<Rightarrow> camera" where
  "VideoCapture cam = cam\<lparr>held := available cam, calls := calls cam @ [Open]\<rparr>"

definition isOpened :: "camera \<Rightarrow> bool" where
  "isOpened cap = held cap"

text \<open>
  \<open>cap.read()\<close>: \<open>Inl\<close> when it raises, else the frame, \<open>None\<close> standing for a false
  \<open>ret\<close>.
\<close>

definition read_frame :: "camera \<Rightarrow> (error + ndarray option) \<times> camera" where
  "read_frame cap =
     (if held cap
      then (case next_read cap of
              Frame f \<Rightarrow> Inr (Some f)
            | NoFrame \<Rightarrow> Inr None
            | ReadError \<Rightarrow> Inl CvError)
      else Inr None,
      cap\<lparr>calls := calls cap @ [Read]\<rparr>)"

definition release :: "camera \<Rightarrow> camera" where
  "release cap = cap\<lparr>held := False, calls := calls cap @ [Release]\<rparr>"

text \<open>
  The result and the camera after the call. \<open>Inl\<close> stands for the \<open>except\<close> branch: the
  error is reported and \<open>None\<close> returned. \<open>cap.release()\<close> is the statement after
  \<open>cap.read()\<close> inside the \<open>try\<close>: when the read raises, control goes to the handler and
  the release is not reached.
\<close>

definition capture_from_camera :: "camera \<Rightarrow> (error + ndarray) \<times> camera" where
  "capture_from_camera cam =
     (let cap = VideoCapture cam in
      if \<not> isOpened cap then (Inl DeviceUnavailable, cap)
      else
        (case read_frame cap of
           (outcome, cap') \<Rightarrow>
             (case outcome of
                Inl e \<Rightarrow> (Inl e, cap')
              | Inr frame \<Rightarrow>
                  (let cap'' = release cap' in
                   case frame of
                     None \<Rightarrow> (Inl FrameReadFailure, cap'')
                   | Some f \<Rightarrow> (Inr f, cap'')))))"

section \<open>Buffers in a store\<close>

text \<open>
  To say which arrays share storage, buffers live in a store: a list of buffer
  contents, a buffer's address being its position. A numpy array object is a view of
  one buffer: the buffer's address and the window of rows and columns it shows. A new
  array (\<open>copy\<close>, \<open>cv2.merge\<close>, \<open>cv2.cvtColor\<close>) is a new buffer, seen whole; basic
  slicing (\<open>a[y1:y2, x1:x2]\<close>) is another window on the same buffer.
\<close>

type_synonym store = "ndarray list"

record view =
  buf :: nat
  top :: nat
  left :: nat
  nrows :: nat
  ncols :: nat

definition window :: "view \<Rightarrow> 'a list list \<Rightarrow> 'a list list" where
  "window a rows = map (\<lambda>row. take (ncols a) (drop (left a) row)) (take (nrows a) (drop (top a) rows))"

text \<open>The contents an array object shows.\<close>

definition deref :: "store \<Rightarrow> view \<Rightarrow> ndarray" where
  "deref s a =
     (case s ! buf a of
        Arr2 rows \<Rightarrow> Arr2 (window a rows)
      | Arr3 rows \<Rightarrow> Arr3 (window a rows))"

text \<open>A view that lies within an allocated, rectangular buffer.\<close>

definition valid_view :: "store \<Rightarrow> view \<Rightarrow> bool" where
  "valid_view s a \<longleftrightarrow>
     buf a < length s
     \<and> has_shape (s ! buf a) (height (s ! buf a)) (width (s ! buf a))
     \<and> top a + nrows a \<le> height (s ! buf a)
     \<and> left a + ncols a \<le> width (s ! buf a)"

definition alloc :: "store \<Rightarrow> ndarray \<Rightarrow> store \<times> view" where
  "alloc s img =
     (s @ [img], \<lparr>buf = length s, top = 0, left = 0, nrows = height img, ncols = width img\<rparr>)"

text \<open>
  The assignment \<open>a[r, c] = p\<close> through an array object, for \<open>r\<close> and \<open>c\<close> within the
  view: it writes the buffer the view shows. (Out of range numpy raises and writes
  nothing.)
\<close>

fun put_pixel :: "ndarray \<Rightarrow> nat \<Rightarrow> nat \<Rightarrow> pixel \<Rightarrow> ndarray" where
  "put_pixel (Arr2 rows) r c p = Arr2 (rows[r := (rows ! r)[c := (case p of [] \<Rightarrow> rows ! r ! c | v # _ \<Rightarrow> v)]])"
| "put_pixel (Arr3 rows) r c p = Arr3 (rows[r := (rows ! r)[c := p]])"

definition setitem :: "store \<Rightarrow> view \<Rightarrow> nat \<Rightarrow> nat \<Rightarrow> pixel \<Rightarrow> store" where
  "setitem s a r c p =
     (if buf a < length s \<and> r < nrows a \<and> c < ncols a
      then s[buf a := put_pixel (s ! buf a) (top a + r) (left a + c) p]
      else s)"

text \<open>
  The four operations on array objects: each takes the store and the argument's view
  and gives the store after the call and the returned array object.
  \<open>crop_image\<close> returns a slice of its argument: a window on the argument's buffer.
\<close>

definition crop_image_st ::
  "store \<Rightarrow> view \<Rightarrow> int \<Rightarrow> int \<Rightarrow> int \<Rightarrow> int \<Rightarrow> store \<times> (error + view)" where
  "crop_image_st s a x1 y1 x2 y2 =
     (s, Inr \<lparr>buf = buf a,
              top = top a + slice_bound (nrows a) y1,
              left = left a + slice_bound (ncols a) x1,
              nrows = slice_bound (nrows a) y2 - slice_bound (nrows a) y1,
              ncols = slice_bound (ncols a) x2 - slice_bound (ncols a) x1\<rparr>)"

text \<open>\<open>extract_channel\<close> returns what \<open>cv2.merge\<close> built: a new buffer.\<close>

definition extract_channel_st :: "store \<Rightarrow> view \<Rightarrow> int \<Rightarrow> store \<times> (error + view)" where
  "extract_channel_st s a channel =
     (case extract_channel (deref s a) channel of
        Inl e \<Rightarrow> (s, Inl e)
      | Inr out \<Rightarrow> (case alloc s out of (s', r) \<Rightarrow> (s', Inr r)))"

text \<open>
  \<open>adjust_brightness\<close>: the first \<open>cvtColor\<close> builds a new buffer \<open>hsv\<close>, the assignment
  writes that buffer in place, the second \<open>cvtColor\<close> builds the returned buffer.
\<close>

definition adjust_brightness_st ::
  "convert \<Rightarrow> convert \<Rightarrow> store \<Rightarrow> view \<Rightarrow> int \<Rightarrow> store \<times> (error + view)" where
  "adjust_brightness_st bgr2hsv hsv2bgr s a val =
     (case cvtColor_BGR2HSV bgr2hsv (deref s a) of
        Inl e \<Rightarrow> (s, Inl e)
      | Inr hsv0 \<Rightarrow>
          (case alloc s hsv0 of
             (s1, hsv) \<Rightarrow>
               (case brighten (deref s1 hsv) val of
                  Inl e \<Rightarrow> (s1, Inl e)
                | Inr hsv' \<Rightarrow>
                    (let s2 = s1[buf hsv := hsv'] in
                     case cvtColor_HSV2BGR hsv2bgr (deref s2 hsv) of
                       Inl e \<Rightarrow> (s2, Inl e)
                     | Inr out \<Rightarrow> (case alloc s2 out of (s3, r) \<Rightarrow> (s3, Inr r))))))"

text \<open>
  \<open>draw_circle\<close>: \<open>image.copy()\<close> is a new buffer, \<open>cv2.circle\<close> draws into that buffer
  in place, and the copy is returned.
\<close>

definition draw_circle_st ::
  "circle_routine \<Rightarrow> store \<Rightarrow> view \<Rightarrow> int \<Rightarrow> int \<Rightarrow> int \<Rightarrow> store \<times> (error + view)" where
  "draw_circle_st cv2_circle s a x y radius =
     (case alloc s (deref s a) of
        (s1, result) \<Rightarrow>
          (case cv2_circle (deref s1 result) (x, y) radius [0, 0, 255] 2 of
             None \<Rightarrow> (s1, Inl CvError)
           | Some drawn \<Rightarrow> (s1[buf result := drawn], Inr result)))"

section \<open>Example buffers\<close>

text \<open>
  A 2 by 2 buffer, a 12 by 12 buffer whose pixel in row \<open>r\<close>, column \<open>c\<close> is
  \<open>(r, c, 7)\<close>, and a 1 by 2 buffer of gray pixels; for each the store that holds
  only it and the array object that shows it whole, and for the 12 by 12 buffer the
  array object that shows its rows and columns 1 to 10. Last, a camera that is
  available and has a frame, and one whose read raises.
\<close>

definition small_image :: ndarray where
  "small_image = Arr3 [[[1, 2, 3], [4, 5, 6]], [[7, 8, 9], [10, 11, 12]]]"

definition indices :: "nat list" where
  "indices = [0, 1, 2, 3, 4, 5, 6, 7, 8, 9, 10, 11]"

definition sample_image :: ndarray where
  "sample_image = Arr3 (map (\<lambda>r. map (\<lambda>c. [of_nat r, of_nat c, 7]) indices) indices)"

definition sample_store :: store where
  "sample_store = [sample_image]"

definition sample_view :: view where
  "sample_view = \<lparr>buf = 0, top = 0, left = 0, nrows = 12, ncols = 12\<rparr>"

definition inner_view :: view where
  "inner_view = \<lparr>buf = 0, top = 1, left = 1, nrows = 10, ncols = 10\<rparr>"

definition gray_image :: ndarray where
  "gray_image = Arr3 [[[255, 255, 255], [10, 10, 10]]]"

definition small_store :: store where
  "small_store = [small_image]"

definition small_view :: view where
  "small_view = \<lparr>buf = 0, top = 0, left = 0, nrows = 2, ncols = 2\<rparr>"

definition gray_store :: store where
  "gray_store = [gray_image]"

definition gray_view :: view where
  "gray_view = \<lparr>buf = 0, top = 0, left = 0, nrows = 1, ncols = 2\<rparr>"

definition failing_camera :: camera where
  "failing_camera = \<lparr>available = True, next_read = ReadError, held = False, calls = []\<rparr>"

definition idle_camera :: camera where
  "idle_camera = \<lparr>available = True, next_read = Frame small_image, held = False, calls = []\<rparr>"

section \<open>Properties\<close>

subsection \<open>Slices\<close>

lemma slice_bound_le: "slice_bound n i \<le> n"
  by (auto simp: slice_bound_def)

lemma py_slice_in_range:
  assumes "0 \<le> lo" "lo \<le> hi" "hi \<le> int (length xs)"
  shows "py_slice lo hi xs = take (nat (hi - lo)) (drop (nat lo) xs)"
proof -
  have "slice_bound (length xs) lo = nat lo" "slice_bound (length xs) hi = nat hi"
    using assms by (auto simp: slice_bound_def)
  moreover have "nat hi - nat lo = nat (hi - lo)"
    using assms by linarith
  ultimately show ?thesis by (simp add: py_slice_def)
qed

lemma length_py_slice_in_range:
  assumes "0 \<le> lo" "lo \<le> hi" "hi \<le> int (length xs)"
  shows "length (py_slice lo hi xs) = nat (hi - lo)"
  using assms by (simp add: py_slice_in_range)

lemma nth_py_slice_in_range:
  assumes "0 \<le> lo" "lo \<le> hi" "hi \<le> int (length xs)" "k < nat (hi - lo)"
  shows "py_slice lo hi xs ! k = xs ! (nat lo + k)"
  using assms by (simp add: py_slice_in_range) 

lemma set_py_slice: "set (py_slice lo hi xs) \<subseteq> set xs"
  unfolding py_slice_def by (meson set_take_subset set_drop_subset subset_trans)

lemma crop_rows:
  fixes rows :: "'a list list"
  assumes r: "rect h w rows"
    and x: "0 \<le> x1" "x1 < x2" "x2 \<le> int w"
    and y: "0 \<le> y1" "y1 < y2" "y2 \<le> int h"
  shows "rect (nat (y2 - y1)) (nat (x2 - x1)) (map (py_slice x1 x2) (py_slice y1 y2 rows))"
    and "i < nat (x2 - x1) \<Longrightarrow> j < nat (y2 - y1) \<Longrightarrow>
         map (py_slice x1 x2) (py_slice y1 y2 rows) ! j ! i = rows ! (nat y1 + j) ! (nat x1 + i)"
proof -
  have len: "length rows = h" and wid: "\<And>row. row \<in> set rows \<Longrightarrow> length row = w"
    using r by (auto simp: rect_def list_all_iff)
  have hl: "length (py_slice y1 y2 rows) = nat (y2 - y1)"
    using y len by (simp add: length_py_slice_in_range)
  have "\<And>row. row \<in> set (py_slice y1 y2 rows) \<Longrightarrow> length (py_slice x1 x2 row) = nat (x2 - x1)"
    using set_py_slice wid x by (metis length_py_slice_in_range less_imp_le subsetD)
  then show "rect (nat (y2 - y1)) (nat (x2 - x1)) (map (py_slice x1 x2) (py_slice y1 y2 rows))"
    using hl by (simp add: rect_def list_all_iff)
  assume i: "i < nat (x2 - x1)" and j: "j < nat (y2 - y1)"
  have row: "py_slice y1 y2 rows ! j = rows ! (nat y1 + j)"
    using y len j by (simp add: nth_py_slice_in_range)
  have "nat y1 + j < length rows" using y len j by linarith
  then have "length (rows ! (nat y1 + j)) = w" using wid by simp
  then have "py_slice x1 x2 (rows ! (nat y1 + j)) ! i = rows ! (nat y1 + j) ! (nat x1 + i)"
    using x i by (simp add: nth_py_slice_in_range)
  then show "map (py_slice x1 x2) (py_slice y1 y2 rows) ! j ! i = rows ! (nat y1 + j) ! (nat x1 + i)"
    using row hl j by simp
qed

subsection \<open>Example buffers\<close>

lemma sample_shape: "has_shape sample_image 12 12"
  by (simp add: sample_image_def indices_def rect_def)

lemma sample_canonical: "canonical sample_image"
  by (simp add: sample_image_def indices_def canonical_def rect_def has_channels_def row_width_def)

subsection \<open>Cropping\<close>

text \<open>
  Claim C6. For a rectangular buffer of height \<open>h\<close> and width \<open>w\<close> and a region with
  \<open>0 \<le> x1 < x2 \<le> w\<close>, \<open>0 \<le> y1 < y2 \<le> h\<close> and both spans at least 10,
  \<open>crop_image\<close> returns a buffer of \<open>y2 - y1\<close> rows and \<open>x2 - x1\<close> columns whose pixel in
  column \<open>i\<close>, row \<open>j\<close> is the source's pixel in column \<open>x1 + i\<close>, row \<open>y1 + j\<close>.
\<close>

theorem crop_image_region:
  assumes "has_shape img h w"
    and "0 \<le> x1" "x1 < x2" "x2 \<le> int w" "0 \<le> y1" "y1 < y2" "y2 \<le> int h"
    and "x2 - x1 \<ge> 10" "y2 - y1 \<ge> 10"
  shows "\<exists>out. crop_image img x1 y1 x2 y2 = Inr out
           \<and> has_shape out (nat (y2 - y1)) (nat (x2 - x1))
           \<and> (\<forall>i j. i < nat (x2 - x1) \<longrightarrow> j < nat (y2 - y1) \<longrightarrow>
                 pixel_at out j i = pixel_at img (nat y1 + j) (nat x1 + i))"
proof (cases img)
  case (Arr2 rows)
  then have "rect h w rows" using assms(1) by simp
  from crop_rows[OF this assms(2-7)] show ?thesis
    using Arr2 by simp
next
  case (Arr3 rows)
  then have "rect h w rows" using assms(1) by simp
  from crop_rows[OF this assms(2-7)] show ?thesis
    using Arr3 by simp
qed

theorem crop_image_region_witness:
  "has_shape sample_image 12 12
   \<and> (\<exists>out. crop_image sample_image 1 1 11 11 = Inr out
          \<and> has_shape out 10 10
          \<and> pixel_at out 2 3 = pixel_at sample_image 3 4)"
proof -
  have s: "has_shape sample_image 12 12"
    by (simp add: sample_image_def indices_def rect_def)
  from crop_image_region[OF s, of 1 11 1 11]
  obtain out where o: "crop_image sample_image 1 1 11 11 = Inr out" "has_shape out 10 10"
    and px: "\<forall>i j. i < 10 \<longrightarrow> j < 10 \<longrightarrow> pixel_at out j i = pixel_at sample_image (1 + j) (1 + i)"
    by auto
  have "(1::nat) + 2 = 3" "(1::nat) + 3 = 4" by simp_all
  with px[rule_format, of 3 2] have "pixel_at out 2 3 = pixel_at sample_image 3 4"
    by (simp del: One_nat_def add_2_eq_Suc add_2_eq_Suc' add_numeral_left)
  with o s show ?thesis by blast
qed

text \<open>
  Claim C2, as the code has it. \<open>crop_image\<close> checks nothing and fails for no region:
  for all integers it returns the slice, rows \<open>y1 .. y2\<close> and of each columns
  \<open>x1 .. x2\<close>. The check of the region is the dialog's: its \<open>accept\<close> fails with
  \<open>InvalidRegion\<close> whenever \<open>x1 \<ge> x2\<close>, \<open>y1 \<ge> y2\<close> or one of the spans is below 10, and
  for a region that satisfies the precondition (within the buffer, both spans at least
  10) it returns what \<open>crop_image\<close> returns.
\<close>

theorem crop_validation:
  "crop_image img x1 y1 x2 y2
     = Inr (case img of
              Arr2 rows \<Rightarrow> Arr2 (map (py_slice x1 x2) (py_slice y1 y2 rows))
            | Arr3 rows \<Rightarrow> Arr3 (map (py_slice x1 x2) (py_slice y1 y2 rows)))
   \<and> (x1 \<ge> x2 \<or> y1 \<ge> y2 \<or> x2 - x1 < 10 \<or> y2 - y1 < 10 \<longrightarrow>
        crop_image_dialog_accept img x1 y1 x2 y2 = Inl InvalidRegion)
   \<and> (0 \<le> x1 \<and> x1 < x2 \<and> x2 \<le> int (width img) \<and> 0 \<le> y1 \<and> y1 < y2 \<and> y2 \<le> int (height img)
        \<and> x2 - x1 \<ge> 10 \<and> y2 - y1 \<ge> 10 \<longrightarrow>
        crop_image_dialog_accept img x1 y1 x2 y2 = crop_image img x1 y1 x2 y2)"
  by (cases img) (auto simp: crop_image_dialog_accept_def)

theorem crop_validation_witness:
  "crop_image_dialog_accept sample_image 0 0 5 5 = Inl InvalidRegion
   \<and> crop_image_dialog_accept sample_image 1 1 11 11 = crop_image sample_image 1 1 11 11
   \<and> crop_image sample_image 1 1 11 11 \<noteq> Inl InvalidRegion"
proof -
  have hw: "height sample_image = 12" "width sample_image = 12"
    by (simp_all add: sample_image_def indices_def row_width_def)
  from crop_validation[where img = sample_image and ?x1.0 = 0 and ?y1.0 = 0 and ?x2.0 = 5 and ?y2.0 = 5]
  have 1: "crop_image_dialog_accept sample_image 0 0 5 5 = Inl InvalidRegion"
    by simp
  from crop_validation[where img = sample_image and ?x1.0 = 1 and ?y1.0 = 1 and ?x2.0 = 11 and ?y2.0 = 11]
  have 2: "crop_image_dialog_accept sample_image 1 1 11 11 = crop_image sample_image 1 1 11 11"
    and 3: "crop_image sample_image 1 1 11 11 \<noteq> Inl InvalidRegion"
    by (simp_all add: hw)
  from 1 2 3 show ?thesis by simp
qed

text \<open>
  The claim as stated fails: a region of span 1 violates the precondition, and
  \<open>crop_image\<close> returns the 1 by 1 buffer instead of failing.
\<close>

theorem crop_small_region:
  "crop_image small_image 0 0 1 1 = Inr (Arr3 [[[1, 2, 3]]])"
  by (simp add: small_image_def py_slice_def slice_bound_def)

subsection \<open>Channel isolation\<close>

lemma interleave_row:
  "map (\<lambda>(x, y, z). [x, y, z]) (zip (map f row) (zip (map g row) (map h row)))
     = map (\<lambda>p. [f p, g p, h p]) row"
  by (induction row) simp_all

lemma interleave_maps:
  "interleave (map (map f) rows) (map (map g) rows) (map (map h) rows)
     = map (map (\<lambda>p. [f p, g p, h p])) rows"
  unfolding interleave_def by (induction rows) (simp_all add: interleave_row)

lemma row_width_map: "row_width (map (map f) rows) = row_width rows"
  by (cases rows) (simp_all add: row_width_def)

lemma cv2_merge_maps:
  assumes "rows \<noteq> []" "row_width rows \<noteq> 0"
  shows "cv2_merge (map (map f) rows) (map (map g) rows) (map (map h) rows)
           = Inr (Arr3 (map (map (\<lambda>p. [f p, g p, h p])) rows))"
  using assms by (simp add: cv2_merge_def row_width_map interleave_maps)

text \<open>On a buffer with no rows \<open>cv2.merge\<close> raises, and so does \<open>extract_channel\<close>.\<close>

lemma extract_channel_empty: "extract_channel (Arr3 []) channel = Inl CvError"
  by (simp add: plane_def zeros_like_def cv2_merge_def)

lemma zeros_like_map: "zeros_like (map (map f) rows) = map (map (\<lambda>_. 0)) rows"
  by (simp add: zeros_like_def comp_def)

lemma plane_three:
  assumes "list_all (list_all (\<lambda>p. length p = 3)) rows" "k < 3"
  shows "plane k rows = Inr (map (map (\<lambda>p. p ! k)) rows)"
proof -
  have "list_all (list_all (\<lambda>p. k < length p)) rows"
    using assms by (auto simp: list_all_iff)
  then show ?thesis by (simp add: plane_def)
qed

lemma extract_channel_three:
  assumes "list_all (list_all (\<lambda>p. length p = 3)) rows" and "rows \<noteq> []" "row_width rows \<noteq> 0"
  shows "extract_channel (Arr3 rows) channel =
           Inr (Arr3 (map (map (\<lambda>p. if channel = 0 then [p ! 0, 0, 0]
                                       else if channel = 1 then [0, p ! 1, 0]
                                       else [0, 0, p ! 2])) rows))"
proof -
  have p: "plane 0 rows = Inr (map (map (\<lambda>p. p ! 0)) rows)"
    "plane (Suc 0) rows = Inr (map (map (\<lambda>p. p ! Suc 0)) rows)"
    "plane 2 rows = Inr (map (map (\<lambda>p. p ! 2)) rows)"
    using assms(1) plane_three[of rows 0] plane_three[of rows "Suc 0"] plane_three[of rows 2]
    by simp_all
  have z: "zeros_like (map (map (\<lambda>p. p ! 0)) rows) = map (map (\<lambda>_. 0)) rows"
    by (rule zeros_like_map)
  have m: "cv2_merge (map (map (\<lambda>p. p ! 0)) rows) (map (map (\<lambda>_. 0)) rows) (map (map (\<lambda>_. 0)) rows)
             = Inr (Arr3 (map (map (\<lambda>p. [p ! 0, 0, 0])) rows))"
    "cv2_merge (map (map (\<lambda>_. 0)) rows) (map (map (\<lambda>p. p ! Suc 0)) rows) (map (map (\<lambda>_. 0)) rows)
             = Inr (Arr3 (map (map (\<lambda>p. [0, p ! Suc 0, 0])) rows))"
    "cv2_merge (map (map (\<lambda>_. 0)) rows) (map (map (\<lambda>_. 0)) rows) (map (map (\<lambda>p. p ! 2)) rows)
             = Inr (Arr3 (map (map (\<lambda>p. [0, 0, p ! 2])) rows))"
    by (rule cv2_merge_maps[OF assms(2,3)])+
  show ?thesis
    by (simp add: p z m)
qed

lemma canonical_rows:
  assumes "canonical img"
  obtains rows where "img = Arr3 rows" "rect (height img) (width img) rows"
    "list_all (list_all (\<lambda>p. length p = 3)) rows" "rows \<noteq> []" "row_width rows \<noteq> 0"
  using assms by (cases img) (auto simp: canonical_def has_channels_def)

text \<open>
  Claim C7. For a canonical buffer and a channel index 0, 1 or 2, \<open>extract_channel\<close>
  returns a three-channel buffer of the same height and width in which, at every pixel,
  the chosen channel has the source's byte and the other two are 0.
\<close>

theorem extract_channel_isolates:
  assumes "canonical img" and "channel = 0 \<or> channel = 1 \<or> channel = 2"
  shows "\<exists>out. extract_channel img channel = Inr out
           \<and> has_shape out (height img) (width img)
           \<and> has_channels 3 out
           \<and> (\<forall>r c k. r < height img \<longrightarrow> c < width img \<longrightarrow> k < 3 \<longrightarrow>
                 pixel_at out r c ! k = (if int k = channel then pixel_at img r c ! k else 0))"
proof -
  from assms(1) obtain rows where img: "img = Arr3 rows"
    and r: "rect (height img) (width img) rows"
    and c3: "list_all (list_all (\<lambda>p. length p = 3)) rows"
    and ne: "rows \<noteq> []" "row_width rows \<noteq> 0"
    by (rule canonical_rows)
  let ?f = "\<lambda>p::pixel. if channel = 0 then [p ! 0, 0, 0]
                        else if channel = 1 then [0, p ! 1, 0] else [0, 0, p ! 2]"
  let ?out = "Arr3 (map (map ?f) rows)"
  have e: "extract_channel img channel = Inr ?out"
    using extract_channel_three[OF c3 ne] img by simp
  have s: "has_shape ?out (height img) (width img)"
    using r by (simp add: rect_def list_all_iff)
  have c: "has_channels 3 ?out"
    by (simp add: has_channels_def list_all_iff)
  have px: "pixel_at ?out r c ! k = (if int k = channel then pixel_at img r c ! k else 0)"
    if "r < height img" "c < width img" "k < 3" for r c k
  proof -
    have "r < length rows" using that r by (simp add: rect_def)
    moreover from this have "c < length (rows ! r)"
      using that r by (simp add: rect_def list_all_length)
    ultimately have "pixel_at ?out r c = ?f (rows ! r ! c)" by simp
    moreover have "k = 0 \<or> k = 1 \<or> k = 2" using that by linarith
    ultimately show ?thesis using assms(2) img by auto
  qed
  show ?thesis using e s c px by blast
qed

theorem extract_channel_isolates_witness:
  "canonical sample_image
   \<and> (\<exists>out. extract_channel sample_image 1 = Inr out
          \<and> has_shape out 12 12 \<and> has_channels 3 out
          \<and> pixel_at out 3 4 = [0, 4, 0])"
proof -
  have hw: "height sample_image = 12" "width sample_image = 12"
    by (simp_all add: sample_image_def indices_def row_width_def)
  from extract_channel_isolates[OF sample_canonical, of 1]
  obtain out where o: "extract_channel sample_image 1 = Inr out" "has_shape out 12 12"
    "has_channels 3 out"
    and px: "\<forall>r c k. r < 12 \<longrightarrow> c < 12 \<longrightarrow> k < 3 \<longrightarrow>
        pixel_at out r c ! k = (if int k = 1 then pixel_at sample_image r c ! k else 0)"
    by (auto simp: hw)
  have "length (pixel_at out 3 4) = 3"
    using o(2,3) by (cases out) (auto simp: has_channels_def rect_def list_all_length)
  moreover have "pixel_at out 3 4 ! 0 = 0" "pixel_at out 3 4 ! 1 = 4" "pixel_at out 3 4 ! 2 = 0"
    using px[rule_format, of 3 4 0] px[rule_format, of 3 4 1] px[rule_format, of 3 4 2]
    by (simp_all add: sample_image_def indices_def)
  ultimately have "pixel_at out 3 4 = [0, 4, 0]"
    by (cases "pixel_at out 3 4" rule: list.exhaust) (auto simp: length_Suc_conv numeral_3_eq_3)
  with o sample_canonical show ?thesis by blast
qed

text \<open>
  Claim C10. For a canonical buffer and any channel index other than 0 and 1 (3 and -1
  among them), \<open>extract_channel\<close> does not fail: it returns what it returns for index 2,
  channel 2 kept and channels 0 and 1 zero.
\<close>

theorem extract_channel_falls_through:
  assumes "canonical img" and "channel \<noteq> 0" and "channel \<noteq> 1"
  shows "\<exists>out. extract_channel img channel = Inr out
           \<and> extract_channel img 2 = Inr out
           \<and> has_shape out (height img) (width img)
           \<and> (\<forall>r c. r < height img \<longrightarrow> c < width img \<longrightarrow>
                 pixel_at out r c = [0, 0, pixel_at img r c ! 2])"
proof -
  from assms(1) obtain rows where img: "img = Arr3 rows"
    and r: "rect (height img) (width img) rows"
    and c3: "list_all (list_all (\<lambda>p. length p = 3)) rows"
    and ne: "rows \<noteq> []" "row_width rows \<noteq> 0"
    by (rule canonical_rows)
  let ?out = "Arr3 (map (map (\<lambda>p. [0, 0, p ! 2])) rows)"
  have e: "extract_channel img channel = Inr ?out" "extract_channel img 2 = Inr ?out"
    using extract_channel_three[OF c3 ne] img assms(2,3) by simp_all
  have s: "has_shape ?out (height img) (width img)"
    using r by (simp add: rect_def list_all_iff)
  have px: "pixel_at ?out r c = [0, 0, pixel_at img r c ! 2]"
    if "r < height img" "c < width img" for r c
  proof -
    have "r < length rows" using that r by (simp add: rect_def)
    moreover from this have "c < length (rows ! r)"
      using that r by (simp add: rect_def list_all_length)
    ultimately show ?thesis using img by simp
  qed
  show ?thesis using e s px by blast
qed

theorem extract_channel_falls_through_witness:
  "canonical sample_image
   \<and> (\<exists>out. extract_channel sample_image 3 = Inr out
          \<and> extract_channel sample_image (- 1) = Inr out
          \<and> pixel_at out 3 4 = [0, 0, 7])"
proof -
  have hw: "height sample_image = 12" "width sample_image = 12"
    by (simp_all add: sample_image_def indices_def row_width_def)
  from extract_channel_falls_through[OF sample_canonical, of 3]
  obtain out where o: "extract_channel sample_image 3 = Inr out"
    "extract_channel sample_image 2 = Inr out"
    and px: "\<forall>r c. r < 12 \<longrightarrow> c < 12 \<longrightarrow> pixel_at out r c = [0, 0, pixel_at sample_image r c ! 2]"
    by (auto simp: hw)
  from extract_channel_falls_through[OF sample_canonical, of "- 1"] o(2)
  have "extract_channel sample_image (- 1) = Inr out" by auto
  moreover from px[rule_format, of 3 4] have "pixel_at out 3 4 = [0, 0, 7]"
    by (simp add: sample_image_def indices_def)
  ultimately show ?thesis using o sample_canonical by blast
qed

subsection \<open>Loading\<close>

text \<open>
  Claim C9. A buffer with three channels at every pixel passes through \<open>normalize\<close>
  unchanged, so normalizing it twice gives what normalizing it once gives.
\<close>

theorem normalize_idempotent:
  assumes "has_channels 3 x"
  shows "normalize x = Inr x
         \<and> (case normalize x of Inl e \<Rightarrow> Inl e | Inr y \<Rightarrow> normalize y) = normalize x"
proof -
  from assms obtain rows where x: "x = Arr3 rows"
    and c3: "list_all (list_all (\<lambda>p. length p = 3)) rows"
    by (cases x) (auto simp: has_channels_def)
  have "channels rows \<noteq> 4"
    using c3 by (auto simp: channels_def split: list.splits)
  then have "normalize x = Inr x" by (simp add: normalize_def x)
  then show ?thesis by simp
qed

theorem normalize_idempotent_witness:
  "has_channels 3 small_image \<and> normalize small_image = Inr small_image
   \<and> (case normalize small_image of Inl e \<Rightarrow> Inl e | Inr y \<Rightarrow> normalize y) = Inr small_image"
proof -
  have h: "has_channels 3 small_image" by (simp add: small_image_def has_channels_def)
  from normalize_idempotent[OF h] h show ?thesis by simp
qed

text \<open>
  \<open>load_image\<close> rejects no channel layout: a three-dimensional array whose channel
  count is not 4 comes back as it is.
\<close>

lemma load_image_passes:
  "channels rows \<noteq> 4 \<Longrightarrow> load_image (Some (Arr3 rows)) = Inr (Arr3 rows)"
  by (simp add: load_image_def normalize_def)

lemma load_image_accepts_layouts: "load_image decoded \<noteq> Inl UnsupportedChannelLayout"
  by (simp add: load_image_def normalize_def split: option.split ndarray.split)

text \<open>
  Claim C4 fails on the code: a decoded buffer with two channels is neither
  two-dimensional nor four-channel, so \<open>load_image\<close> returns it as it is, with its two
  channels, instead of failing with \<open>UnsupportedChannelLayout\<close>.
\<close>

theorem load_image_two_channels:
  "load_image (Some (Arr3 [[[1, 2]]])) = Inr (Arr3 [[[1, 2]]])"
  by (simp add: load_image_def normalize_def channels_def)

text \<open>
  When the read returns, with a frame or without, \<open>capture_from_camera\<close> does not end
  holding the camera: its calls are one \<open>Open\<close> when the device cannot be opened and
  \<open>Open\<close>, one \<open>Read\<close>, \<open>Release\<close> when it can; it fails with \<open>DeviceUnavailable\<close> when
  the device cannot be opened, with \<open>FrameReadFailure\<close> when the read has no frame, and
  returns the frame otherwise.
\<close>

lemma capture_from_camera_returning:
  assumes "next_read cam \<noteq> ReadError"
  shows "\<not> held (snd (capture_from_camera cam))
   \<and> calls (snd (capture_from_camera cam))
       = calls cam @ (if available cam then [Open, Read, Release] else [Open])
   \<and> fst (capture_from_camera cam)
       = (if \<not> available cam then Inl DeviceUnavailable
          else case next_read cam of
                 Frame f \<Rightarrow> Inr f | NoFrame \<Rightarrow> Inl FrameReadFailure | ReadError \<Rightarrow> Inl CvError)"
  using assms
  by (cases "next_read cam")
     (simp_all add: capture_from_camera_def VideoCapture_def isOpened_def read_frame_def
        release_def Let_def)

lemma capture_from_camera_frame:
  "capture_from_camera idle_camera
     = (Inr small_image, idle_camera\<lparr>calls := [Open, Read, Release]\<rparr>)"
  by (simp add: capture_from_camera_def VideoCapture_def isOpened_def read_frame_def
      release_def Let_def idle_camera_def)

text \<open>
  When the device opens and the read raises, the function ends in its handler having
  called \<open>Open\<close> and \<open>Read\<close> only, and still holds the camera.
\<close>

lemma capture_from_camera_raising:
  assumes "available cam" "next_read cam = ReadError"
  shows "held (snd (capture_from_camera cam))
   \<and> calls (snd (capture_from_camera cam)) = calls cam @ [Open, Read]
   \<and> fst (capture_from_camera cam) = Inl CvError"
  using assms
  by (simp add: capture_from_camera_def VideoCapture_def isOpened_def read_frame_def Let_def)

text \<open>
  Claim C8 fails on the code: with a camera that opens and whose read raises, the
  function returns from its \<open>except\<close> branch without \<open>Release\<close>, while the claim has the
  device released on every exit path after a successful open.
\<close>

theorem capture_from_camera_read_raises:
  "held (snd (capture_from_camera failing_camera))
   \<and> calls (snd (capture_from_camera failing_camera)) = [Open, Read]
   \<and> fst (capture_from_camera failing_camera) = Inl CvError"
  by (simp add: capture_from_camera_def VideoCapture_def isOpened_def read_frame_def Let_def
      failing_camera_def)

subsection \<open>Brightness\<close>

text \<open>
  On \<open>uint8\<close> the clip to \<open>0 .. 255\<close> changes nothing, so for a buffer of one pixel
  and a value from 0 to 255 the result is converted back from the value channel plus
  the value modulo 256, whatever the two conversions are.
\<close>

lemma np_clip_uint8: "np_clip a 0 255 = a"
proof -
  have "(255 :: uint8) = - 1" by simp
  then have "a \<le> 255" by (metis word_order.extremum)
  then show ?thesis by (simp add: np_clip_def max_def min_def)
qed

lemma adjust_brightness_pixel:
  assumes "0 \<le> val" "val \<le> 255"
  shows "adjust_brightness bgr2hsv hsv2bgr (Arr3 [[[b, g, r]]]) val
         = Inr (Arr3 [[case bgr2hsv b g r of (h, s, v) \<Rightarrow>
                         convert_pixel hsv2bgr [h, s, v + word_of_int val]]])"
  using assms
  by (simp add: adjust_brightness_def cvtColor_BGR2HSV_def cvtColor_HSV2BGR_def is_empty_def
      row_width_def brighten_def plane_def brighten_pixel_def np_clip_uint8 convert_pixel_def
      split: prod.splits)

text \<open>
  Claim C1 fails on the code: a value channel of 255 raised by 100 wraps around to 99
  in \<open>uint8\<close> before \<open>np.clip\<close> sees it, so the value channel is not left at 255. The
  assignment on the value channel alone, and the whole function on a buffer with a
  white pixel (value 255) and a dark gray one (value 10).
\<close>

theorem adjust_brightness_wraps:
  "brighten (Arr3 [[[0, 0, 255]]]) 100 = Inr (Arr3 [[[0, 0, 99]]])
   \<and> adjust_brightness bgr2hsv_gray hsv2bgr_gray gray_image 100
       = Inr (Arr3 [[[99, 99, 99], [110, 110, 110]]])"
  by (simp add: adjust_brightness_def cvtColor_BGR2HSV_def cvtColor_HSV2BGR_def is_empty_def
      row_width_def brighten_def plane_def brighten_pixel_def np_clip_def convert_pixel_def
      bgr2hsv_gray_def hsv2bgr_gray_def gray_image_def)

subsection \<open>Circles\<close>

text \<open>
  Claim C5, as the code has it. \<open>draw_circle\<close> checks nothing: for every centre and
  radius it hands the buffer to the drawing routine and returns what the routine drew,
  and it fails only when the routine raises (\<open>cv2.error\<close>), never with
  \<open>CircleOutOfBounds\<close>. The check of the circle is the dialog's: its \<open>accept\<close> fails with
  \<open>CircleOutOfBounds\<close> when the radius is not positive or the disk does not lie within
  the buffer, and returns what \<open>draw_circle\<close> returns otherwise.
\<close>

theorem draw_circle_validation:
  "draw_circle cv2_circle img x y radius
     = (case cv2_circle img (x, y) radius [0, 0, 255] 2 of
          None \<Rightarrow> Inl CvError
        | Some result \<Rightarrow> Inr result)
   \<and> draw_circle cv2_circle img x y radius \<noteq> Inl CircleOutOfBounds
   \<and> draw_circle_dialog_accept cv2_circle img x y radius
       = (if radius \<le> 0 \<or> x - radius < 0 \<or> x + radius \<ge> int (width img)
             \<or> y - radius < 0 \<or> y + radius \<ge> int (height img)
          then Inl CircleOutOfBounds
          else draw_circle cv2_circle img x y radius)"
proof -
  have "draw_circle cv2_circle img x y radius \<noteq> Inl CircleOutOfBounds"
    by (simp add: draw_circle_def split: option.split)
  then show ?thesis
    by (simp add: draw_circle_dialog_accept_def draw_circle_def)
qed

theorem draw_circle_validation_witness:
  "draw_circle sketch_circle sample_image 0 6 5 \<noteq> Inl CircleOutOfBounds
   \<and> draw_circle_dialog_accept sketch_circle sample_image 0 6 5 = Inl CircleOutOfBounds
   \<and> draw_circle_dialog_accept sketch_circle sample_image 6 6 5
       = draw_circle sketch_circle sample_image 6 6 5"
proof -
  have hw: "height sample_image = 12" "width sample_image = 12"
    by (simp_all add: sample_image_def indices_def row_width_def)
  note left = draw_circle_validation[of sketch_circle sample_image 0 6 5]
  note mid = draw_circle_validation[of sketch_circle sample_image 6 6 5]
  have 1: "draw_circle sketch_circle sample_image 0 6 5 \<noteq> Inl CircleOutOfBounds"
    using left by (rule conjunct2[THEN conjunct1])
  have 2: "draw_circle_dialog_accept sketch_circle sample_image 0 6 5 = Inl CircleOutOfBounds"
    using left[THEN conjunct2, THEN conjunct2] by simp
  have 3: "draw_circle_dialog_accept sketch_circle sample_image 6 6 5
             = draw_circle sketch_circle sample_image 6 6 5"
    using mid[THEN conjunct2, THEN conjunct2] by (simp add: hw)
  from 1 2 3 show ?thesis by simp
qed

text \<open>
  The claim as stated fails: a circle of radius 5 centred on the left edge violates the
  precondition, and \<open>draw_circle\<close> returns a buffer instead of failing.
\<close>

theorem draw_circle_at_left_edge:
  "draw_circle sketch_circle small_image 0 0 5 = Inr small_image"
  by (simp add: draw_circle_def sketch_circle_def small_image_def paint_def on_ring_def enumerate_eq_zip power2_eq_square)


subsection \<open>Storage\<close>

text \<open>
  The store operations compute what the functions on contents compute: the array
  object \<open>crop_image_st\<close> returns shows the buffer \<open>crop_image\<close> returns, and a new
  array object shows the contents it was allocated with.
\<close>

lemma py_slice_window:
  assumes "off + n \<le> length xs"
  shows "py_slice lo hi (take n (drop off xs))
           = take (slice_bound n hi - slice_bound n lo) (drop (off + slice_bound n lo) xs)"
proof -
  have len: "length (take n (drop off xs)) = n" using assms by simp
  have le: "slice_bound n hi - slice_bound n lo \<le> n - slice_bound n lo"
    using slice_bound_le[of n hi] by simp
  show ?thesis
    unfolding py_slice_def len
    by (simp add: drop_take min_absorb1[OF le] add.commute)
qed

lemma window_rows:
  fixes rows :: "'a list list"
  assumes r: "rect h w rows" and t: "top a + nrows a \<le> h" and l: "left a + ncols a \<le> w"
  shows "map (py_slice x1 x2) (py_slice y1 y2 (window a rows))
           = window \<lparr>buf = buf a,
                top = top a + slice_bound (nrows a) y1,
                left = left a + slice_bound (ncols a) x1,
                nrows = slice_bound (nrows a) y2 - slice_bound (nrows a) y1,
                ncols = slice_bound (ncols a) x2 - slice_bound (ncols a) x1\<rparr> rows"
proof -
  have len: "length rows = h" and wid: "\<And>row. row \<in> set rows \<Longrightarrow> length row = w"
    using r by (auto simp: rect_def list_all_iff)
  let ?f = "\<lambda>row. take (ncols a) (drop (left a) row)"
  let ?sel = "take (slice_bound (nrows a) y2 - slice_bound (nrows a) y1)
                (drop (top a + slice_bound (nrows a) y1) rows)"
  have "py_slice y1 y2 (window a rows) = map ?f ?sel"
  proof -
    have "length (take (nrows a) (drop (top a) rows)) = nrows a" using t len by simp
    then have "py_slice y1 y2 (map ?f (take (nrows a) (drop (top a) rows)))
                 = map ?f (py_slice y1 y2 (take (nrows a) (drop (top a) rows)))"
      by (simp add: py_slice_def take_map drop_map)
    also have "py_slice y1 y2 (take (nrows a) (drop (top a) rows)) = ?sel"
      using t len by (simp add: py_slice_window)
    finally show ?thesis by (simp add: window_def)
  qed
  moreover have "py_slice x1 x2 (?f row)
      = take (slice_bound (ncols a) x2 - slice_bound (ncols a) x1)
          (drop (left a + slice_bound (ncols a) x1) row)"
    if "row \<in> set ?sel" for row
  proof -
    have "row \<in> set rows" using that by (meson in_set_takeD in_set_dropD)
    then have "left a + ncols a \<le> length row" using wid l by simp
    then show ?thesis by (rule py_slice_window)
  qed
  ultimately show ?thesis by (simp add: window_def)
qed

lemma crop_image_st_refines:
  assumes "valid_view s a" and "crop_image_st s a x1 y1 x2 y2 = (s', Inr r)"
  shows "crop_image (deref s a) x1 y1 x2 y2 = Inr (deref s' r)"
proof -
  have r: "s' = s" "r = \<lparr>buf = buf a,
                top = top a + slice_bound (nrows a) y1,
                left = left a + slice_bound (ncols a) x1,
                nrows = slice_bound (nrows a) y2 - slice_bound (nrows a) y1,
                ncols = slice_bound (ncols a) x2 - slice_bound (ncols a) x1\<rparr>"
    using assms(2) by (auto simp: crop_image_st_def)
  show ?thesis
  proof (cases "s ! buf a")
    case (Arr2 rows)
    then have "rect (length rows) (row_width rows) rows" "top a + nrows a \<le> length rows"
      "left a + ncols a \<le> row_width rows"
      using assms(1) by (simp_all add: valid_view_def)
    from window_rows[OF this] show ?thesis
      using Arr2 by (simp add: r deref_def)
  next
    case (Arr3 rows)
    then have "rect (length rows) (row_width rows) rows" "top a + nrows a \<le> length rows"
      "left a + ncols a \<le> row_width rows"
      using assms(1) by (simp_all add: valid_view_def)
    from window_rows[OF this] show ?thesis
      using Arr3 by (simp add: r deref_def)
  qed
qed

lemma window_whole:
  fixes rows :: "'a list list"
  assumes "rect h w rows"
  shows "window \<lparr>buf = b, top = 0, left = 0, nrows = h, ncols = w\<rparr> rows = rows"
proof -
  have "length rows = h" "\<And>row. row \<in> set rows \<Longrightarrow> length row = w"
    using assms by (auto simp: rect_def list_all_iff)
  then show ?thesis by (simp add: window_def map_idI)
qed

lemma deref_alloc:
  assumes "has_shape img (height img) (width img)" and "alloc s img = (s', r)"
  shows "deref s' r = img"
proof -
  have r: "s' = s @ [img]"
    "r = \<lparr>buf = length s, top = 0, left = 0, nrows = height img, ncols = width img\<rparr>"
    using assms(2) by (auto simp: alloc_def)
  show ?thesis
    using assms(1) by (cases img) (simp_all add: r deref_def window_whole)
qed

lemma deref_append: "buf a < length s \<Longrightarrow> deref (s @ t) a = deref s a"
  by (simp add: deref_def nth_append)

lemma deref_update_other: "b \<noteq> buf a \<Longrightarrow> deref (s[b := x]) a = deref s a"
  by (simp add: deref_def)

lemma setitem_other: "buf r \<noteq> buf a \<Longrightarrow> deref (setitem s r i j p) a = deref s a"
  by (simp add: setitem_def deref_update_other)

lemma extract_channel_st_cases:
  assumes "extract_channel_st s a channel = (s', res)"
  shows "(s' = s \<and> (\<exists>e. res = Inl e))
         \<or> (\<exists>out r. s' = s @ [out] \<and> res = Inr r \<and> buf r = length s)"
  using assms
  by (auto simp: extract_channel_st_def alloc_def split: sum.splits)

lemma adjust_brightness_st_cases:
  assumes "adjust_brightness_st bgr2hsv hsv2bgr s a val = (s', res)"
  shows "(\<exists>t. s' = s @ t \<and> (\<exists>e. res = Inl e))
         \<or> (\<exists>t r. s' = s @ t \<and> res = Inr r \<and> length s \<le> buf r)"
proof (cases "cvtColor_BGR2HSV bgr2hsv (deref s a)")
  case (Inl e)
  then show ?thesis using assms by (auto simp: adjust_brightness_st_def)
next
  case (Inr hsv0)
  let ?s1 = "s @ [hsv0]"
  let ?hsv = "\<lparr>buf = length s, top = 0, left = 0, nrows = height hsv0, ncols = width hsv0\<rparr>"
  show ?thesis
  proof (cases "brighten (deref ?s1 ?hsv) val")
    case (Inl e)
    then show ?thesis using assms Inr by (auto simp: adjust_brightness_st_def alloc_def)
  next
    case hsv': (Inr hsv')
    let ?s2 = "s @ [hsv']"
    have s2: "?s1[length s := hsv'] = ?s2" by simp
    show ?thesis
    proof (cases "cvtColor_HSV2BGR hsv2bgr (deref ?s2 ?hsv)")
      case (Inl e)
      then show ?thesis using assms Inr hsv' s2
        by (auto simp: adjust_brightness_st_def alloc_def Let_def)
    next
      case out: (Inr out)
      then have "s' = s @ [hsv', out]" "\<exists>r. res = Inr r \<and> buf r = Suc (length s)"
        using assms Inr hsv' s2
        by (auto simp: adjust_brightness_st_def alloc_def Let_def)
      then show ?thesis by auto
    qed
  qed
qed

lemma draw_circle_st_cases:
  assumes "draw_circle_st cv2_circle s a x y radius = (s', res)"
  shows "\<exists>t. s' = s @ t \<and> ((\<exists>e. res = Inl e) \<or> (\<exists>r. res = Inr r \<and> buf r = length s))"
  using assms
  by (auto simp: draw_circle_st_def alloc_def split: option.splits)

lemma fresh_result:
  assumes "buf a < length s" "s' = s @ t" "length s \<le> buf r"
  shows "deref s' a = deref s a" "buf r \<noteq> buf a" "deref (setitem s' r i j p) a = deref s a"
proof -
  show 1: "deref s' a = deref s a" using assms by (simp add: deref_append)
  show 2: "buf r \<noteq> buf a" using assms by simp
  show "deref (setitem s' r i j p) a = deref s a"
    using 1 2 by (simp add: setitem_other)
qed

text \<open>
  Claim C3, as the code has it. For an allocated input array, each of the four
  operations leaves the input's pixel data as it was. \<open>extract_channel\<close>,
  \<open>adjust_brightness\<close> and \<open>draw_circle\<close> return an array in a buffer of its own:
  writing a pixel of the returned array never changes the input. \<open>crop_image\<close> returns
  no new buffer: it leaves the store as it is and returns a view of the input's
  buffer.
\<close>

theorem transforms_storage:
  assumes "buf a < length s"
  shows "(extract_channel_st s a channel = (s', res) \<longrightarrow>
            deref s' a = deref s a
            \<and> (res = Inr r \<longrightarrow> buf r \<noteq> buf a \<and> deref (setitem s' r i j p) a = deref s a))
       \<and> (adjust_brightness_st bgr2hsv hsv2bgr s a val = (s', res) \<longrightarrow>
            deref s' a = deref s a
            \<and> (res = Inr r \<longrightarrow> buf r \<noteq> buf a \<and> deref (setitem s' r i j p) a = deref s a))
       \<and> (draw_circle_st cv2_circle s a x y radius = (s', res) \<longrightarrow>
            deref s' a = deref s a
            \<and> (res = Inr r \<longrightarrow> buf r \<noteq> buf a \<and> deref (setitem s' r i j p) a = deref s a))
       \<and> (crop_image_st s a x1 y1 x2 y2 = (s', res) \<longrightarrow>
            s' = s \<and> (\<exists>r. res = Inr r \<and> buf r = buf a))"
proof (intro conjI impI)
  assume "crop_image_st s a x1 y1 x2 y2 = (s', res)"
  then show "s' = s" "\<exists>r. res = Inr r \<and> buf r = buf a"
    by (auto simp: crop_image_st_def)
next
  assume e: "extract_channel_st s a channel = (s', res)"
  from extract_channel_st_cases[OF e] show "deref s' a = deref s a"
    using assms by (auto simp: deref_append)
  assume "res = Inr r"
  with extract_channel_st_cases[OF e] obtain out where "s' = s @ [out]" "length s \<le> buf r"
    by auto
  from fresh_result(2,3)[OF assms this]
  show "buf r \<noteq> buf a" "deref (setitem s' r i j p) a = deref s a" .
next
  assume e: "adjust_brightness_st bgr2hsv hsv2bgr s a val = (s', res)"
  from adjust_brightness_st_cases[OF e] show "deref s' a = deref s a"
    using assms by (auto simp: deref_append)
  assume "res = Inr r"
  with adjust_brightness_st_cases[OF e] obtain t where "s' = s @ t" "length s \<le> buf r"
    by auto
  from fresh_result(2,3)[OF assms this]
  show "buf r \<noteq> buf a" "deref (setitem s' r i j p) a = deref s a" .
next
  assume e: "draw_circle_st cv2_circle s a x y radius = (s', res)"
  from draw_circle_st_cases[OF e] show "deref s' a = deref s a"
    using assms by (auto simp: deref_append)
  assume "res = Inr r"
  with draw_circle_st_cases[OF e] obtain t where "s' = s @ t" "length s \<le> buf r"
    by auto
  from fresh_result(2,3)[OF assms this]
  show "buf r \<noteq> buf a" "deref (setitem s' r i j p) a = deref s a" .
qed

theorem transforms_storage_witness:
  "buf small_view < length small_store
   \<and> extract_channel_st small_store small_view 1
       = (small_store @ [Arr3 [[[0, 2, 0], [0, 5, 0]], [[0, 8, 0], [0, 11, 0]]]],
          Inr (small_view\<lparr>buf := 1\<rparr>))
   \<and> deref (setitem (small_store @ [Arr3 [[[0, 2, 0], [0, 5, 0]], [[0, 8, 0], [0, 11, 0]]]])
              (small_view\<lparr>buf := 1\<rparr>) 0 0 [9, 9, 9]) small_view = small_image
   \<and> deref (setitem (fst (adjust_brightness_st bgr2hsv_gray hsv2bgr_gray gray_store gray_view 100))
              (gray_view\<lparr>buf := 2\<rparr>) 0 0 [9, 9, 9]) gray_view = gray_image
   \<and> deref (setitem (fst (draw_circle_st sketch_circle small_store small_view 1 1 1))
              (small_view\<lparr>buf := 1\<rparr>) 0 0 [9, 9, 9]) small_view = small_image
   \<and> crop_image_st small_store small_view 0 0 1 1
       = (small_store, Inr (small_view\<lparr>nrows := 1, ncols := 1\<rparr>))"
proof -
  let ?out = "Arr3 [[[0, 2, 0], [0, 5, 0]], [[0, 8, 0], [0, 11, 0]]]"
  have a: "buf small_view < length small_store" "buf gray_view < length gray_store"
    by (simp_all add: small_view_def small_store_def gray_view_def gray_store_def)
  have d: "deref small_store small_view = small_image" "deref gray_store gray_view = gray_image"
    by (simp_all add: deref_def window_def small_view_def small_store_def small_image_def
        gray_view_def gray_store_def gray_image_def)
  have e: "extract_channel_st small_store small_view 1
             = (small_store @ [?out], Inr (small_view\<lparr>buf := 1\<rparr>))"
    by (simp add: extract_channel_st_def d alloc_def small_image_def plane_def cv2_merge_def interleave_def
        zeros_like_def small_store_def small_view_def row_width_def deref_def window_def)
  have b: "adjust_brightness_st bgr2hsv_gray hsv2bgr_gray gray_store gray_view 100
             = (fst (adjust_brightness_st bgr2hsv_gray hsv2bgr_gray gray_store gray_view 100),
                Inr (gray_view\<lparr>buf := 2\<rparr>))"
    unfolding prod_eq_iff fst_conv snd_conv
    by (simp add: adjust_brightness_st_def d alloc_def gray_image_def gray_store_def gray_view_def
        cvtColor_BGR2HSV_def cvtColor_HSV2BGR_def is_empty_def row_width_def brighten_def
        plane_def brighten_pixel_def np_clip_def convert_pixel_def bgr2hsv_gray_def
        hsv2bgr_gray_def deref_def window_def Let_def)
  have c: "draw_circle_st sketch_circle small_store small_view 1 1 1
             = (fst (draw_circle_st sketch_circle small_store small_view 1 1 1),
                Inr (small_view\<lparr>buf := 1\<rparr>))"
    unfolding prod_eq_iff fst_conv snd_conv
    by (simp add: draw_circle_st_def d alloc_def small_image_def small_store_def small_view_def
        row_width_def sketch_circle_def deref_def window_def)
  have k: "crop_image_st small_store small_view 0 0 1 1
             = (small_store, Inr (small_view\<lparr>nrows := 1, ncols := 1\<rparr>))"
    by (simp add: crop_image_st_def small_view_def slice_bound_def)
  from transforms_storage[OF a(1), where s' = "small_store @ [?out]"
      and res = "Inr (small_view\<lparr>buf := 1\<rparr>)" and r = "small_view\<lparr>buf := 1\<rparr>"
      and channel = 1 and i = 0 and j = 0 and p = "[9, 9, 9]"] e d
  have 1: "deref (setitem (small_store @ [?out]) (small_view\<lparr>buf := 1\<rparr>) 0 0 [9, 9, 9]) small_view
             = small_image"
    by simp
  from transforms_storage[OF a(2), where bgr2hsv = bgr2hsv_gray and hsv2bgr = hsv2bgr_gray
      and val = 100
      and s' = "fst (adjust_brightness_st bgr2hsv_gray hsv2bgr_gray gray_store gray_view 100)"
      and res = "Inr (gray_view\<lparr>buf := 2\<rparr>)"
      and r = "gray_view\<lparr>buf := 2\<rparr>" and i = 0 and j = 0 and p = "[9, 9, 9]"] b d
  have 2: "deref (setitem (fst (adjust_brightness_st bgr2hsv_gray hsv2bgr_gray gray_store gray_view 100))
              (gray_view\<lparr>buf := 2\<rparr>) 0 0 [9, 9, 9]) gray_view = gray_image"
    by simp
  from transforms_storage[OF a(1), where cv2_circle = sketch_circle and x = 1 and y = 1
      and radius = 1
      and s' = "fst (draw_circle_st sketch_circle small_store small_view 1 1 1)"
      and res = "Inr (small_view\<lparr>buf := 1\<rparr>)"
      and r = "small_view\<lparr>buf := 1\<rparr>" and i = 0 and j = 0 and p = "[9, 9, 9]"] c d
  have 3: "deref (setitem (fst (draw_circle_st sketch_circle small_store small_view 1 1 1))
              (small_view\<lparr>buf := 1\<rparr>) 0 0 [9, 9, 9]) small_view = small_image"
    by simp
  show ?thesis using a(1) e 1 2 3 k by simp
qed

text \<open>
  The claim as stated fails for \<open>crop_image\<close>: cropping the 12 by 12 buffer to its rows
  and columns 1 to 10 (a valid region) returns a view of the same buffer, and writing
  the returned array's pixel in row 0, column 0 changes the input's pixel in row 1,
  column 1.
\<close>

theorem crop_shares_storage:
  "crop_image_st sample_store sample_view 1 1 11 11 = (sample_store, Inr inner_view)
   \<and> pixel_at (deref sample_store sample_view) 1 1 = [1, 1, 7]
   \<and> pixel_at (deref (setitem sample_store inner_view 0 0 [9, 9, 9]) sample_view) 1 1 = [9, 9, 9]"
  by (simp add: crop_image_st_def sample_store_def sample_view_def inner_view_def
      slice_bound_def deref_def setitem_def window_def sample_image_def indices_def)

end
